theory Spec2Isabelle
  imports Main "HOL-Library.Char_ord" "HOL-Library.Sublist"
begin

section \<open>Strings\<close>

text \<open>
  A Python \<open>str\<close> is a sequence of Unicode code points. The model uses \<open>string\<close>, whose
  characters carry one of the 256 values \<open>0x00 .. 0xFF\<close>; they are read as the code points
  \<open>U+0000 .. U+00FF\<close> (ASCII and Latin-1). On that range the two built-ins that
  \<open>clean_filename\<close> relies on, \<open>str.lower\<close> and the class \<open>\w\<close> of module \<open>re\<close>, are written
  out below exactly as Python 3 computes them, and \<open>str.lower\<close> does not leave the range.
\<close>

datatype py_error =
    IndexError
  | AttributeError string
  | MissingLowerOrder string "string set"
  | WrongVariableOrder string string string

definition py_lower_char :: "char \<Rightarrow> char" where
  \<comment> \<open>\<open>str.lower\<close> on one code point below \<open>U+0100\<close>: \<open>A-Z\<close>, \<open>U+00C0-U+00D6\<close> and
      \<open>U+00D8-U+00DE\<close> move up by \<open>0x20\<close>, every other character is its own lower case.\<close>
  "py_lower_char c =
     (if (CHR ''A'' \<le> c \<and> c \<le> CHR ''Z'') \<or> (CHR 0xC0 \<le> c \<and> c \<le> CHR 0xD6)
         \<or> (CHR 0xD8 \<le> c \<and> c \<le> CHR 0xDE)
      then char_of (of_char c + (32::nat)) else c)"

definition lower :: "string \<Rightarrow> string" where
  "lower s = map py_lower_char s"

definition is_word_char :: "char \<Rightarrow> bool" where
  \<comment> \<open>the class \<open>\w\<close> on a \<open>str\<close> pattern: alphanumeric code points and the underscore.\<close>
  "is_word_char c \<longleftrightarrow>
     (CHR ''0'' \<le> c \<and> c \<le> CHR ''9'') \<or> (CHR ''A'' \<le> c \<and> c \<le> CHR ''Z'') \<or> c = CHR ''_''
     \<or> (CHR ''a'' \<le> c \<and> c \<le> CHR ''z'')
     \<or> c = CHR 0xAA \<or> c = CHR 0xB2 \<or> c = CHR 0xB3 \<or> c = CHR 0xB5 \<or> c = CHR 0xB9
     \<or> c = CHR 0xBA \<or> c = CHR 0xBC \<or> c = CHR 0xBD \<or> c = CHR 0xBE
     \<or> (CHR 0xC0 \<le> c \<and> c \<le> CHR 0xD6) \<or> (CHR 0xD8 \<le> c \<and> c \<le> CHR 0xF6) \<or> CHR 0xF8 \<le> c"

definition is_ascii :: "char \<Rightarrow> bool" where
  "is_ascii c \<longleftrightarrow> c \<le> CHR 0x7F"

definition in_a_z_0_9_underscore :: "char \<Rightarrow> bool" where
  \<comment> \<open>membership in the character set \<open>[a-z0-9_]\<close>.\<close>
  "in_a_z_0_9_underscore c \<longleftrightarrow>
     (CHR ''a'' \<le> c \<and> c \<le> CHR ''z'') \<or> (CHR ''0'' \<le> c \<and> c \<le> CHR ''9'') \<or> c = CHR ''_''"

definition replace_char :: "char \<Rightarrow> string \<Rightarrow> string \<Rightarrow> string" where
  \<comment> \<open>\<open>s.replace(old, new)\<close> for a one-character \<open>old\<close>.\<close>
  "replace_char old new s = concat (map (\<lambda>c. if c = old then new else [c]) s)"

function re_sub_plus :: "(char \<Rightarrow> bool) \<Rightarrow> string \<Rightarrow> string \<Rightarrow> string" where
  \<comment> \<open>\<open>re.sub(r'X+', repl, s)\<close> for a character class \<open>X\<close>: every maximal run of characters
      of the class is replaced by \<open>repl\<close>.\<close>
  "re_sub_plus X repl [] = []"
| "re_sub_plus X repl (c # cs) =
     (if X c then repl @ re_sub_plus X repl (dropWhile X cs)
      else c # re_sub_plus X repl cs)"
  by pat_completeness auto
termination
  by (relation "measure (\<lambda>(X, repl, s). length s)")
     (auto simp: less_Suc_eq_le length_dropWhile_le)

fun repeated_underscore :: "string \<Rightarrow> bool" where
  \<comment> \<open>two underscores next to each other somewhere in the string.\<close>
  "repeated_underscore (c # d # cs) \<longleftrightarrow>
     (c = CHR ''_'' \<and> d = CHR ''_'') \<or> repeated_underscore (d # cs)"
| "repeated_underscore _ \<longleftrightarrow> False"

section \<open>\<open>Capitalize\<close>\<close>

definition index0 :: "'a list \<Rightarrow> py_error + 'a" where
  \<comment> \<open>\<open>string[0]\<close>, which raises \<open>IndexError\<close> on the empty string.\<close>
  "index0 s = (case s of [] \<Rightarrow> Inl IndexError | c # _ \<Rightarrow> Inr c)"

definition Capitalize :: "('c list \<Rightarrow> 'c list) \<Rightarrow> 'c list \<Rightarrow> py_error + 'c list" where
  \<comment> \<open>\<open>return string[0].capitalize() + string[1:]\<close>. The built-in \<open>str.capitalize\<close> is the
      parameter \<open>capitalize\<close>: on one character it may give two (\<open>U+00DF\<close> becomes \<open>Ss\<close>) or a
      code point above \<open>U+00FF\<close>, so the character type is left open as well.\<close>
  "Capitalize capitalize s =
     (case index0 s of
        Inl e \<Rightarrow> Inl e
      | Inr c \<Rightarrow> Inr (capitalize [c] @ drop 1 s))"

section \<open>\<open>clean_filename\<close>\<close>

definition clean_filename :: "string \<Rightarrow> string" where
  "clean_filename filename =
     (let filename = replace_char CHR '' '' ''_'' (lower filename);
          filename = replace_char CHR ''/'' ''_over_'' filename;
          filename = re_sub_plus (\<lambda>c. \<not> is_word_char c) [] filename;
          filename = re_sub_plus (\<lambda>c. c = CHR ''_'') ''_'' filename
      in filename)"

section \<open>\<open>generate_lower_order_interactions\<close>\<close>

fun join :: "string \<Rightarrow> string list \<Rightarrow> string" where
  \<comment> \<open>\<open>sep.join(xs)\<close>\<close>
  "join sep [] = []"
| "join sep [x] = x"
| "join sep (x # y # ys) = x @ sep @ join sep (y # ys)"

function generate_lower_order_interactions :: "string list \<Rightarrow> string list" where
  \<comment> \<open>the \<open>for\<close> loop over \<open>range(len(vars_in_interaction))\<close>; each round appends the joined
      term when \<open>lower_order\<close> is not empty, then the result of the recursive call when
      \<open>len(lower_order) > 1\<close>.\<close>
  "generate_lower_order_interactions vars_in_interaction =
     concat (map
       (\<lambda>i. let lower_order = take i vars_in_interaction @ drop (i + 1) vars_in_interaction
            in (if lower_order \<noteq> [] then [join '':'' lower_order] else [])
               @ (if length lower_order > 1
                  then generate_lower_order_interactions lower_order else []))
       [0..<length vars_in_interaction])"
  by pat_completeness auto
termination
  by (relation "measure length") auto

declare generate_lower_order_interactions.simps [simp del]

section \<open>\<open>generate_covariate_latexdict\<close>\<close>

text \<open>
  A Python \<open>dict\<close> keeps its keys in insertion order, and the validation below depends on
  that order, so a dictionary is an association list with distinct keys.
\<close>

type_synonym ('k, 'v) dict = "('k \<times> 'v) list"

definition keys :: "('k, 'v) dict \<Rightarrow> 'k list" where
  "keys d = map fst d"

definition dict_get :: "('k, 'v) dict \<Rightarrow> 'k \<Rightarrow> 'v \<Rightarrow> 'v" where
  \<comment> \<open>\<open>d.get(k, dflt)\<close>\<close>
  "dict_get d k dflt = (case map_of d k of None \<Rightarrow> dflt | Some v \<Rightarrow> v)"

fun dict_set :: "('k, 'v) dict \<Rightarrow> 'k \<Rightarrow> 'v \<Rightarrow> ('k, 'v) dict" where
  \<comment> \<open>\<open>d[k] = v\<close>: a present key keeps its place, a new key goes last.\<close>
  "dict_set [] k v = [(k, v)]"
| "dict_set ((k', v') # d) k v = (if k' = k then (k, v) # d else (k', v') # dict_set d k v)"

fun list_index :: "'a list \<Rightarrow> 'a \<Rightarrow> nat option" where
  \<comment> \<open>\<open>xs.index(x)\<close>, the position of the first occurrence; \<open>None\<close> where Python raises
      \<open>ValueError\<close>.\<close>
  "list_index [] x = None"
| "list_index (y # ys) x = (if y = x then Some 0 else map_option Suc (list_index ys x))"

fun split_char :: "char \<Rightarrow> string \<Rightarrow> string list" where
  \<comment> \<open>\<open>s.split(sep)\<close> for a one-character separator; the result is never empty.\<close>
  "split_char sep [] = [[]]"
| "split_char sep (c # cs) =
     (let ws = split_char sep cs
      in if c = sep then [] # ws else (c # hd ws) # tl ws)"

datatype sort_key = Finite int | Infinity

fun key_less :: "sort_key \<Rightarrow> sort_key \<Rightarrow> bool" where
  \<comment> \<open>\<open><\<close> between the integers and \<open>np.inf\<close> that the sort key produces.\<close>
  "key_less (Finite a) (Finite b) \<longleftrightarrow> a < b"
| "key_less (Finite a) Infinity \<longleftrightarrow> True"
| "key_less Infinity _ \<longleftrightarrow> False"

fun insert_by_key :: "('a \<Rightarrow> sort_key) \<Rightarrow> 'a \<Rightarrow> 'a list \<Rightarrow> 'a list" where
  "insert_by_key key x [] = [x]"
| "insert_by_key key x (y # ys) =
     (if key_less (key y) (key x) then y # insert_by_key key x ys else x # y # ys)"

definition sorted_by_key :: "('a \<Rightarrow> sort_key) \<Rightarrow> 'a list \<Rightarrow> 'a list" where
  \<comment> \<open>\<open>sorted(xs, key=key)\<close>: ascending and stable, elements with equal keys keep their
      order. An element is inserted in front of the later elements whose key is not smaller.\<close>
  "sorted_by_key key xs = foldr (insert_by_key key) xs []"

definition order_key :: "(string, string) dict \<Rightarrow> string \<Rightarrow> sort_key" where
  \<comment> \<open>\<open>lambda var: -list(latexdict.keys()).index(var) if var in latexdict.keys() else np.inf\<close>;
      \<open>index\<close> is evaluated on keys only.\<close>
  "order_key latexdict var =
     (case list_index (keys latexdict) var of
        Some i \<Rightarrow> Finite (- int i)
      | None \<Rightarrow> Infinity)"

definition times_sep :: string where
  \<comment> \<open>the separator \<open>' $\\times$ '\<close>: blank, dollar, backslash, \<open>times\<close>, dollar, blank.\<close>
  "times_sep = '' $'' @ [CHR 0x5C] @ ''times$ ''"

text \<open>
  The two \<open>assert\<close> statements raise \<open>AssertionError\<close>. \<open>MissingLowerOrder cov_name missing\<close>
  stands for the first, with the covariate and the set \<open>set(lower_order_interactions) -
  set(cov_names)\<close> that its message prints; \<open>WrongVariableOrder cov_name current correct\<close>
  for the second, with the covariate and the two orders of its message, each joined by
  colons.
\<close>

definition clean_cov_name :: "(string, string) dict \<Rightarrow> string list \<Rightarrow> string \<Rightarrow> py_error + string" where
  \<comment> \<open>the body of the loop up to the display string of one covariate.\<close>
  "clean_cov_name latexdict cov_names cov_name =
     (let vars_in_interaction = split_char CHR '':'' cov_name;
          clean_name = join times_sep (map (\<lambda>var. dict_get latexdict var var) vars_in_interaction)
      in if length vars_in_interaction > 1 then
           let lower_order_interactions = generate_lower_order_interactions vars_in_interaction;
               correct_order_vars = sorted_by_key (order_key latexdict) vars_in_interaction
           in if \<not> set lower_order_interactions \<subseteq> set cov_names then
                Inl (MissingLowerOrder cov_name (set lower_order_interactions - set cov_names))
              else if vars_in_interaction \<noteq> correct_order_vars then
                Inl (WrongVariableOrder cov_name (join '':'' vars_in_interaction)
                       (join '':'' correct_order_vars))
              else Inr clean_name
         else Inr clean_name)"

fun cov_loop ::
  "(string, string) dict \<Rightarrow> string list \<Rightarrow> string list \<Rightarrow> (string, string) dict
     \<Rightarrow> py_error + (string, string) dict" where
  \<comment> \<open>\<open>for cov_name in cov_names\<close>, on the covariates still to visit, with the dictionary
      built so far; the first failed assertion ends the call.\<close>
  "cov_loop latexdict cov_names [] cov_latexdict = Inr cov_latexdict"
| "cov_loop latexdict cov_names (cov_name # rest) cov_latexdict =
     (case clean_cov_name latexdict cov_names cov_name of
        Inl e \<Rightarrow> Inl e
      | Inr clean_name \<Rightarrow>
          cov_loop latexdict cov_names rest (dict_set cov_latexdict cov_name clean_name))"

definition generate_covariate_latexdict ::
  "(string, string) dict \<Rightarrow> string list \<Rightarrow> py_error + (string, string) dict" where
  "generate_covariate_latexdict latexdict cov_names = cov_loop latexdict cov_names cov_names []"

section \<open>\<open>savereg\<close>: the pseudo-R2 block\<close>

text \<open>
  The table object belongs to the stargazer library. Of it the block reads the fields
  \<open>models\<close>, \<open>model_data\<close> (one dictionary per model) and \<open>custom_notes\<close>, and calls the
  method \<open>add_custom_notes\<close>, which is a parameter of the model. A fitted model has the
  attribute \<open>prsquasecond\<close> or not; its value is only copied, so its type is left open.
\<close>

record 'v model =
  prsquasecond :: "'v option"

record 'v stargazer =
  models :: "'v model list"
  model_data :: "(string \<rightharpoonup> 'v) list"
  custom_notes :: "string list"

definition pseudo_r2_note :: string where
  "pseudo_r2_note = ''$R^2$ reports McFadden'' @ [CHR 0x27] @ ''s pseudo-$R^2$.''"

fun overwrite_r2 ::
  "(string list \<Rightarrow> 'v stargazer \<Rightarrow> 'v stargazer) \<Rightarrow> (nat \<times> 'v model) list \<Rightarrow> 'v stargazer
     \<Rightarrow> py_error + 'v stargazer" where
  \<comment> \<open>\<open>for model, model_data in zip(stargazer.models, stargazer.model_data)\<close>, on the pairs
      still to visit; a pair is the position of the dictionary and the model. Reading
      \<open>model.prsquasecond\<close> raises \<open>AttributeError\<close> on a model without the attribute.\<close>
  "overwrite_r2 add_custom_notes [] sg = Inr sg"
| "overwrite_r2 add_custom_notes ((i, model) # rest) sg =
     (case prsquasecond model of
        None \<Rightarrow> Inl (AttributeError ''prsquasecond'')
      | Some p \<Rightarrow>
          (let sg = sg\<lparr>model_data := (model_data sg)[i := (model_data sg ! i)(''r2'' \<mapsto> p)]\<rparr>;
               sg = (if pseudo_r2_note \<notin> set (custom_notes sg)
                     then add_custom_notes (custom_notes sg @ [pseudo_r2_note]) sg
                     else sg)
           in overwrite_r2 add_custom_notes rest sg))"

definition savereg_pseudo_r2 ::
  "(string list \<Rightarrow> 'v stargazer \<Rightarrow> 'v stargazer) \<Rightarrow> 'v stargazer \<Rightarrow> py_error + 'v stargazer" where
  \<comment> \<open>the block under \<open># Overwrite R2 with pseudo-R2 if provided\<close>; \<open>zip\<close> stops at the
      shorter of the two lists.\<close>
  "savereg_pseudo_r2 add_custom_notes sg =
     (if list_ex (\<lambda>model. prsquasecond model \<noteq> None) (models sg)
      then overwrite_r2 add_custom_notes (zip [0..<length (model_data sg)] (models sg)) sg
      else Inr sg)"

definition set_custom_notes :: "string list \<Rightarrow> 'v stargazer \<Rightarrow> 'v stargazer" where
  \<comment> \<open>what \<open>add_custom_notes\<close> does in the stargazer library: the argument becomes the list
      of custom notes.\<close>
  "set_custom_notes notes sg = sg\<lparr>custom_notes := notes\<rparr>"

section \<open>\<open>savefig\<close>\<close>

text \<open>
  Of the axes object \<open>savefig\<close> uses the attributes \<open>title\<close> and \<open>suptitle\<close>, each present or
  not, and of a title only its visibility. What the call does to the outside is a list
  of events: a saved file with its path and the axes as they were when it was rendered,
  the display of the plot, and the printed line.
\<close>

record artist =
  visible :: bool

record axes =
  title :: "artist option"
  suptitle :: "artist option"

datatype event = SaveFig string axes | Show | Print string

definition setp_title_visible :: "bool \<Rightarrow> axes \<Rightarrow> py_error + axes" where
  \<comment> \<open>\<open>plt.setp(ax.title, visible=b)\<close>; evaluating \<open>ax.title\<close> raises \<open>AttributeError\<close> when
      the object has no such attribute.\<close>
  "setp_title_visible b ax =
     (case title ax of
        None \<Rightarrow> Inl (AttributeError ''title'')
      | Some t \<Rightarrow> Inr (ax\<lparr>title := Some (t\<lparr>visible := b\<rparr>)\<rparr>))"

definition save_notitle :: "axes \<Rightarrow> string \<Rightarrow> py_error + axes \<times> event list" where
  \<comment> \<open>the three statements that both branches of \<open>savefig\<close> share, word for word:
      hide the title, save the figure, show the title again.\<close>
  "save_notitle ax path =
     (case setp_title_visible False ax of
        Inl e \<Rightarrow> Inl e
      | Inr hidden \<Rightarrow>
          (let events = [SaveFig path hidden]
           in case setp_title_visible True hidden of
                Inl e \<Rightarrow> Inl e
              | Inr restored \<Rightarrow> Inr (restored, events)))"

definition savefig :: "axes \<Rightarrow> string \<Rightarrow> string \<Rightarrow> py_error + axes \<times> event list" where
  "savefig ax filename figurepath =
     (let filename = clean_filename filename;
          notitle =
            (if title ax \<noteq> None then save_notitle ax (figurepath @ filename @ ''_notitle.pdf'')
             else if suptitle ax \<noteq> None
               then save_notitle ax (figurepath @ filename @ ''_notitle.pdf'')
             else Inr (ax, []))
      in case notitle of
           Inl e \<Rightarrow> Inl e
         | Inr (ax, events) \<Rightarrow>
             Inr (ax, events @
               [SaveFig (figurepath @ filename @ ''.pdf'') ax,
                SaveFig (figurepath @ filename @ ''.png'') ax,
                Show,
                Print (''Saved to: '' @ figurepath @ filename @ ''.pdf'')]))"

section \<open>Characters as code points\<close>

lemma char_eq_nat: "c = d \<longleftrightarrow> (of_char c :: nat) = of_char d"
  by simp

lemma of_char_py_lower_char:
  "(of_char (py_lower_char c) :: nat) =
     (if (65 \<le> (of_char c :: nat) \<and> (of_char c :: nat) \<le> 90)
         \<or> (192 \<le> (of_char c :: nat) \<and> (of_char c :: nat) \<le> 214)
         \<or> (216 \<le> (of_char c :: nat) \<and> (of_char c :: nat) \<le> 222)
      then of_char c + 32 else of_char c)"
  using nat_of_char_less_256 [of c]
  by (simp add: py_lower_char_def less_eq_char_def)

lemma py_lower_char_idem: "py_lower_char (py_lower_char c) = py_lower_char c"
  unfolding char_eq_nat [of "py_lower_char (py_lower_char c)"]
  by (simp add: of_char_py_lower_char)

lemma is_word_char_nat:
  "is_word_char c \<longleftrightarrow>
     (48 \<le> (of_char c :: nat) \<and> (of_char c :: nat) \<le> 57)
     \<or> (65 \<le> (of_char c :: nat) \<and> (of_char c :: nat) \<le> 90)
     \<or> (of_char c :: nat) = 95 \<or> (97 \<le> (of_char c :: nat) \<and> (of_char c :: nat) \<le> 122)
     \<or> (of_char c :: nat) \<in> {170, 178, 179, 181, 185, 186, 188, 189, 190}
     \<or> (192 \<le> (of_char c :: nat) \<and> (of_char c :: nat) \<le> 214)
     \<or> (216 \<le> (of_char c :: nat) \<and> (of_char c :: nat) \<le> 246)
     \<or> 248 \<le> (of_char c :: nat)"
  unfolding is_word_char_def less_eq_char_def char_eq_nat [of c]
  by simp

lemma ascii_lower_word_char:
  "is_ascii c \<Longrightarrow> is_word_char c \<Longrightarrow> py_lower_char c = c \<Longrightarrow> in_a_z_0_9_underscore c"
  unfolding char_eq_nat [of "py_lower_char c"] is_word_char_nat of_char_py_lower_char
    is_ascii_def in_a_z_0_9_underscore_def less_eq_char_def char_eq_nat [of c "CHR ''_''"]
  by (simp split: if_splits) arith

lemma py_lower_char_ascii: "is_ascii c \<Longrightarrow> is_ascii (py_lower_char c)"
  unfolding is_ascii_def less_eq_char_def of_char_py_lower_char
  by (simp split: if_splits)

lemma underscore_over_chars:
  "c \<in> set ''_over_'' \<Longrightarrow> is_ascii c \<and> py_lower_char c = c"
  by (auto simp: is_ascii_def py_lower_char_def)

lemma not_word_space_slash: "\<not> is_word_char CHR '' ''" "\<not> is_word_char CHR ''/''"
  by (simp_all add: is_word_char_def)

section \<open>Replacement and substitution\<close>

lemma filter_dropWhile_neg: "filter (\<lambda>c. \<not> X c) (dropWhile X cs) = filter (\<lambda>c. \<not> X c) cs"
  by (induction cs) auto

lemma re_sub_plus_empty_repl: "re_sub_plus X [] s = filter (\<lambda>c. \<not> X c) s"
  by (induction X "[] :: string" s rule: re_sub_plus.induct) (auto simp: filter_dropWhile_neg)

lemma set_re_sub_plus: "set (re_sub_plus X repl s) \<subseteq> set s \<union> set repl"
proof (induction X repl s rule: re_sub_plus.induct)
  case (1 X repl)
  then show ?case by simp
next
  case (2 X repl c cs)
  have "set (dropWhile X cs) \<subseteq> set cs" by (rule set_dropWhileD [THEN subsetI])
  with 2 show ?case by auto
qed

lemma replace_char_id: "old \<notin> set s \<Longrightarrow> replace_char old new s = s"
  by (induction s) (auto simp: replace_char_def)

lemma set_replace_char: "set (replace_char old new s) \<subseteq> set s \<union> set new"
  by (auto simp: replace_char_def split: if_splits)

lemma repeated_underscore_Cons:
  "repeated_underscore (c # t) \<longleftrightarrow>
     (c = CHR ''_'' \<and> t \<noteq> [] \<and> hd t = CHR ''_'') \<or> repeated_underscore t"
  by (cases t) auto

lemma collapse_head:
  "s = [] \<or> hd s \<noteq> CHR ''_'' \<Longrightarrow>
   re_sub_plus (\<lambda>c. c = CHR ''_'') ''_'' s = []
   \<or> hd (re_sub_plus (\<lambda>c. c = CHR ''_'') ''_'' s) \<noteq> CHR ''_''"
  by (cases s) auto

lemma dropWhile_head: "dropWhile X cs = [] \<or> \<not> X (hd (dropWhile X cs))"
  using hd_dropWhile [of X cs] by blast

lemma collapse_no_repeat: "\<not> repeated_underscore (re_sub_plus (\<lambda>c. c = CHR ''_'') ''_'' s)"
proof (induction "\<lambda>c. c = CHR ''_''" "''_''" s rule: re_sub_plus.induct)
  case 1
  then show ?case by simp
next
  case (2 c cs)
  show ?case
  proof (cases "c = CHR ''_''")
    case True
    with 2 collapse_head [OF dropWhile_head [of "\<lambda>c. c = CHR ''_''" cs]]
    show ?thesis by (auto simp: repeated_underscore_Cons)
  next
    case False
    with 2 show ?thesis by (auto simp: repeated_underscore_Cons)
  qed
qed

lemma collapse_id:
  "\<not> repeated_underscore s \<Longrightarrow> re_sub_plus (\<lambda>c. c = CHR ''_'') ''_'' s = s"
proof (induction s rule: repeated_underscore.induct)
  case (1 c d cs)
  then show ?case by (cases "d = CHR ''_''") auto
qed simp_all

section \<open>The sanitizer\<close>

lemma clean_filename_alt:
  "clean_filename s =
     re_sub_plus (\<lambda>c. c = CHR ''_'') ''_''
       (filter is_word_char
         (replace_char CHR ''/'' ''_over_'' (replace_char CHR '' '' ''_'' (lower s))))"
  by (simp add: clean_filename_def re_sub_plus_empty_repl)

lemma set_clean_filename:
  "set (clean_filename s) \<subseteq> {c \<in> py_lower_char ` set s \<union> set ''_over_''. is_word_char c}"
proof -
  let ?u = "replace_char CHR ''/'' ''_over_'' (replace_char CHR '' '' ''_'' (lower s))"
  have "set ?u \<subseteq> py_lower_char ` set s \<union> set ''_over_''"
    using set_replace_char [of "CHR ''/''" "''_over_''" "replace_char CHR '' '' ''_'' (lower s)"]
      set_replace_char [of "CHR '' ''" "''_''" "lower s"]
    by (auto simp: lower_def)
  moreover have "is_word_char CHR ''_''" by (simp add: is_word_char_def)
  ultimately show ?thesis
    unfolding clean_filename_alt
    using set_re_sub_plus [of "\<lambda>c. c = CHR ''_''" "''_''" "filter is_word_char ?u"]
    by auto
qed

lemma clean_filename_chars:
  assumes "c \<in> set (clean_filename s)"
  shows "is_word_char c" and "py_lower_char c = c"
  using assms set_clean_filename [of s] underscore_over_chars [of c]
  by (auto simp: py_lower_char_idem)

lemma clean_filename_ascii:
  assumes "\<forall>c \<in> set s. is_ascii c" and "c \<in> set (clean_filename s)"
  shows "is_ascii c"
  using assms set_clean_filename [of s] underscore_over_chars [of c]
  by (auto simp: py_lower_char_ascii)

lemma clean_filename_no_repeat: "\<not> repeated_underscore (clean_filename s)"
  unfolding clean_filename_alt by (rule collapse_no_repeat)

text \<open>
  C8, as amended. The output of \<open>clean_filename\<close> holds only word characters that are
  their own lower case, and never two underscores in a row; when the input is ASCII, the
  output holds only characters of \<open>[a-z0-9_]\<close>. A word character is a letter or digit of
  any script or the underscore, so a non-ASCII letter of the input stays in the output.
\<close>

theorem clean_filename_charset:
  "list_all (\<lambda>c. is_word_char c \<and> py_lower_char c = c) (clean_filename s)
   \<and> \<not> repeated_underscore (clean_filename s)
   \<and> (list_all is_ascii s \<longrightarrow> list_all in_a_z_0_9_underscore (clean_filename s))"
  using clean_filename_chars [of _ s] clean_filename_ascii [of s] clean_filename_no_repeat [of s]
  by (auto simp: list_all_iff intro: ascii_lower_word_char)

theorem clean_filename_charset_witness:
  "list_all is_ascii ''My Plot/V2!!''
   \<and> list_all in_a_z_0_9_underscore (clean_filename ''My Plot/V2!!'')
   \<and> \<not> repeated_underscore (clean_filename ''My Plot/V2!!'')"
proof -
  have h: "list_all is_ascii ''My Plot/V2!!''" by code_simp
  with clean_filename_charset [of "''My Plot/V2!!''"] show ?thesis by blast
qed

text \<open>
  The claim as stated fails on the one-character string \<open>U+00E9\<close> (e with acute accent):
  it is a word character, so it comes out unchanged, and it is not in \<open>[a-z0-9_]\<close>.
\<close>

theorem clean_filename_latin1_counterexample:
  "clean_filename [CHR 0xE9] = [CHR 0xE9] \<and> \<not> in_a_z_0_9_underscore (CHR 0xE9)"
  by code_simp

text \<open>
  C9. \<open>clean_filename\<close> is idempotent, and \<open>clean_filename("My Plot/V2!!")\<close> is
  \<open>my_plot_over_v2\<close>.
\<close>

theorem clean_filename_idempotent:
  "clean_filename (clean_filename s) = clean_filename s
   \<and> clean_filename ''My Plot/V2!!'' = ''my_plot_over_v2''"
proof
  let ?t = "clean_filename s"
  have w: "\<forall>c \<in> set ?t. is_word_char c" and l: "\<forall>c \<in> set ?t. py_lower_char c = c"
    using clean_filename_chars [of _ s] by blast+
  have 1: "lower ?t = ?t" using l by (simp add: lower_def map_idI)
  have 2: "replace_char CHR '' '' ''_'' ?t = ?t"
    using w not_word_space_slash by (intro replace_char_id) blast
  have 3: "replace_char CHR ''/'' ''_over_'' ?t = ?t"
    using w not_word_space_slash by (intro replace_char_id) blast
  have 4: "filter is_word_char ?t = ?t" using w by simp
  have 5: "re_sub_plus (\<lambda>c. c = CHR ''_'') ''_'' ?t = ?t"
    by (rule collapse_id) (rule clean_filename_no_repeat)
  show "clean_filename ?t = ?t"
    by (subst clean_filename_alt) (simp add: 1 2 3 4 5)
next
  show "clean_filename ''My Plot/V2!!'' = ''my_plot_over_v2''" by code_simp
qed

section \<open>\<open>Capitalize\<close> is partial\<close>

text \<open>
  C10. On the empty string \<open>Capitalize\<close> raises \<open>IndexError\<close>; on a string with first
  character \<open>c\<close> and rest \<open>cs\<close> it returns \<open>c\<close> capitalized, followed by \<open>cs\<close> unchanged.
\<close>

theorem Capitalize_partial:
  "Capitalize capitalize [] = Inl IndexError
   \<and> Capitalize capitalize (c # cs) = Inr (capitalize [c] @ cs)"
  by (simp add: Capitalize_def index0_def)

section \<open>The lower-order terms of an interaction\<close>

text \<open>
  C1, as amended. For \<open>["A","B","C"]\<close> the generator returns nine terms: the index left out
  runs from the first variable to the last, and after each pair come the two single
  variables that the recursive call on the pair produces.
\<close>

theorem three_variable_interactions:
  "generate_lower_order_interactions [''A'', ''B'', ''C'']
     = [''B:C'', ''C'', ''B'', ''A:C'', ''C'', ''A'', ''A:B'', ''B'', ''A'']"
  by code_simp

text \<open>The list of the claim as stated is not the result.\<close>

theorem three_variable_interactions_counterexample:
  "generate_lower_order_interactions [''A'', ''B'', ''C''] \<noteq> [''A:B'', ''A:C'', ''B:C'']"
  by code_simp

lemma generate_lower_order_interactions_pair:
  "generate_lower_order_interactions [a, b] = [b, a]"
  by (subst generate_lower_order_interactions.simps) (simp add: upt_rec)

lemma subseq_omit: "subseq (take i xs @ drop (Suc i) xs) xs"
proof -
  have "drop (Suc i) xs = drop 1 (drop i xs)" by simp
  then have "drop i xs = take 1 (drop i xs) @ drop (Suc i) xs"
    by (simp only: append_take_drop_id)
  then have "subseq (drop (Suc i) xs) (drop i xs)"
    by (metis subseq_drop_many subseq_order.refl)
  then have "subseq (take i xs @ drop (Suc i) xs) (take i xs @ drop i xs)"
    by (simp only: subseq_append')
  then show ?thesis by simp
qed

lemma generated_iff:
  "s \<in> set (generate_lower_order_interactions vs) \<longleftrightarrow>
     (\<exists>i<length vs.
        (take i vs @ drop (Suc i) vs \<noteq> [] \<and> s = join '':'' (take i vs @ drop (Suc i) vs))
        \<or> (1 < length (take i vs @ drop (Suc i) vs)
           \<and> s \<in> set (generate_lower_order_interactions (take i vs @ drop (Suc i) vs))))"
proof -
  define lo where "lo i = take i vs @ drop (Suc i) vs" for i
  have "generate_lower_order_interactions vs =
      concat (map (\<lambda>i. (if lo i \<noteq> [] then [join '':'' (lo i)] else [])
                       @ (if 1 < length (lo i) then generate_lower_order_interactions (lo i) else []))
                [0..<length vs])"
    unfolding lo_def
    by (subst generate_lower_order_interactions.simps) (simp only: Let_def Suc_eq_plus1)
  then have "s \<in> set (generate_lower_order_interactions vs) \<longleftrightarrow>
     (\<exists>i<length vs. (lo i \<noteq> [] \<and> s = join '':'' (lo i))
        \<or> (1 < length (lo i) \<and> s \<in> set (generate_lower_order_interactions (lo i))))"
    by (auto split: if_splits)
  then show ?thesis unfolding lo_def .
qed

lemma generated_step:
  assumes "i < length vs" and "1 < length (take i vs @ drop (Suc i) vs)"
  shows "set (generate_lower_order_interactions (take i vs @ drop (Suc i) vs))
             \<subseteq> set (generate_lower_order_interactions vs)"
proof
  fix s
  assume "s \<in> set (generate_lower_order_interactions (take i vs @ drop (Suc i) vs))"
  with assms show "s \<in> set (generate_lower_order_interactions vs)"
    by (subst generated_iff) blast
qed

lemma generated_terms:
  "s \<in> set (generate_lower_order_interactions vs) \<Longrightarrow>
   \<exists>ys. subseq ys vs \<and> 1 \<le> length ys \<and> length ys < length vs \<and> s = join '':'' ys"
proof (induction vs arbitrary: s rule: length_induct)
  case (1 vs)
  from generated_iff [THEN iffD1, OF "1.prems"] obtain i where i: "i < length vs"
    and s: "(take i vs @ drop (Suc i) vs \<noteq> [] \<and> s = join '':'' (take i vs @ drop (Suc i) vs))
        \<or> (1 < length (take i vs @ drop (Suc i) vs)
           \<and> s \<in> set (generate_lower_order_interactions (take i vs @ drop (Suc i) vs)))"
    by (elim exE conjE)
  define lo where "lo = take i vs @ drop (Suc i) vs"
  have sub: "subseq lo vs" unfolding lo_def by (rule subseq_omit)
  have len: "length lo < length vs" using i by (simp add: lo_def)
  from s have "(lo \<noteq> [] \<and> s = join '':'' lo)
      \<or> (1 < length lo \<and> s \<in> set (generate_lower_order_interactions lo))"
    unfolding lo_def .
  then show ?case
  proof (elim disjE conjE)
    assume "lo \<noteq> []" and eq: "s = join '':'' lo"
    then have "1 \<le> length lo" by (cases lo) simp_all
    with sub len eq show ?thesis by blast
  next
    assume mem: "s \<in> set (generate_lower_order_interactions lo)"
    from "1.IH" [rule_format, OF len mem]
    obtain ys where ys: "subseq ys lo" "1 \<le> length ys" "length ys < length lo" "s = join '':'' ys"
      by (elim exE conjE)
    from ys(1) sub have "subseq ys vs" by (rule subseq_order.trans)
    moreover from ys(3) len have "length ys < length vs" by simp
    ultimately show ?thesis using ys(2,4) by blast
  qed
qed

lemma generated_singles:
  "2 \<le> length vs \<Longrightarrow> v \<in> set vs \<Longrightarrow> v \<in> set (generate_lower_order_interactions vs)"
proof (induction vs rule: length_induct)
  case (1 vs)
  from "1.prems" obtain a b rest where vs: "vs = a # b # rest"
    by (cases vs; cases "tl vs") auto
  show ?case
  proof (cases "rest = []")
    case True
    with vs "1.prems" show ?thesis by (auto simp: generate_lower_order_interactions_pair)
  next
    case False
    then have long: "1 < length (b # rest)" "1 < length (a # rest)"
      by (cases rest; simp)+
    have omit0: "take 0 vs @ drop (Suc 0) vs = b # rest"
      and omit1: "take 1 vs @ drop (Suc 1) vs = a # rest"
      by (simp_all add: vs)
    have step: "v \<in> set (generate_lower_order_interactions vs)"
      if "i < length vs" and "take i vs @ drop (Suc i) vs = lo" and "1 < length lo"
        and "v \<in> set lo" for i lo
    proof -
      have "length lo < length vs" using that(1,2) by auto
      with "1.IH" that(3,4) have "v \<in> set (generate_lower_order_interactions lo)"
        by simp
      with generated_step [of i vs] that(1,2,3) show ?thesis by blast
    qed
    show ?thesis
    proof (cases "v \<in> set (b # rest)")
      case True
      from step [OF _ omit0 long(1) True] show ?thesis by (simp add: vs)
    next
      case False
      with "1.prems" vs have "v \<in> set (a # rest)" by auto
      from step [OF _ omit1 long(2) this] show ?thesis by (simp add: vs)
    qed
  qed
qed

text \<open>
  C2, as amended. Every string that \<open>generate_lower_order_interactions\<close> emits is the
  colon-join of at least one variable: of a non-empty list of variables of the input, in
  the order of the input and shorter than it. Single-variable terms are part of the
  output: for an input of two or more variables, every variable of it is emitted alone.
\<close>

theorem lower_order_terms:
  "(s \<in> set (generate_lower_order_interactions vs) \<longrightarrow>
      (\<exists>ys. subseq ys vs \<and> 1 \<le> length ys \<and> length ys < length vs \<and> s = join '':'' ys))
   \<and> (2 \<le> length vs \<and> v \<in> set vs \<longrightarrow>
        join '':'' [v] \<in> set (generate_lower_order_interactions vs))"
  using generated_terms [of s vs] generated_singles [of vs v] by simp

theorem lower_order_terms_witness:
  "''B'' \<in> set (generate_lower_order_interactions [''A'', ''B''])
   \<and> (\<exists>ys. subseq ys [''A'', ''B''] \<and> 1 \<le> length ys \<and> length ys < length [''A'', ''B'']
          \<and> ''B'' = join '':'' ys)
   \<and> join '':'' [''B''] \<in> set (generate_lower_order_interactions [''A'', ''B''])"
proof -
  have h: "''B'' \<in> set (generate_lower_order_interactions [''A'', ''B''])" by code_simp
  with lower_order_terms [of "''B''" "[''A'', ''B'']" "''B''"] show ?thesis by simp
qed

text \<open>For two variables the output is the two single-variable terms.\<close>

theorem two_variables_counterexample:
  "generate_lower_order_interactions [''A'', ''B''] = [join '':'' [''B''], join '':'' [''A'']]"
  by code_simp

section \<open>Display names of covariates\<close>

lemma split_A_B:
  "split_char CHR '':'' ''A:B'' = [''A'', ''B'']" "split_char CHR '':'' ''B:A'' = [''B'', ''A'']"
  "split_char CHR '':'' ''A'' = [''A'']" "split_char CHR '':'' ''B'' = [''B'']"
  by code_simp+

text \<open>
  C3, as amended. With \<open>latexdict = {"A": "Alpha", "B": "Beta"}\<close> and the covariates
  \<open>["A", "B", "A:B"]\<close> the call fails the order validation on \<open>"A:B"\<close>, whose message gives
  \<open>B:A\<close> as the correct order: the sort key is the negated position among the keys, so the
  keys are followed from the last to the first. With the keys in the order \<open>B\<close>, \<open>A\<close> the call
  succeeds and maps \<open>"A:B"\<close> to \<open>Alpha $\times$ Beta\<close>.
\<close>

theorem alpha_beta_display:
  "generate_covariate_latexdict [(''A'', ''Alpha''), (''B'', ''Beta'')] [''A'', ''B'', ''A:B'']
     = Inl (WrongVariableOrder ''A:B'' ''A:B'' ''B:A'')
   \<and> generate_covariate_latexdict [(''B'', ''Beta''), (''A'', ''Alpha'')] [''A'', ''B'', ''A:B'']
     = Inr [(''A'', ''Alpha''), (''B'', ''Beta''), (''A:B'', ''Alpha'' @ times_sep @ ''Beta'')]"
  by code_simp

text \<open>On the input of the claim the call does not succeed.\<close>

theorem alpha_beta_counterexample:
  "generate_covariate_latexdict [(''A'', ''Alpha''), (''B'', ''Beta'')] [''A'', ''B'', ''A:B'']
     = Inl (WrongVariableOrder ''A:B'' ''A:B'' ''B:A'')"
  by code_simp

text \<open>
  C4, as amended. With the keys of the display-name mapping in the order \<open>A\<close>, \<open>B\<close>, whatever
  the display strings, and the covariates \<open>"A"\<close> and \<open>"B"\<close> present, the order validation
  fails for the covariate \<open>"A:B"\<close>, reporting \<open>B:A\<close> as the correct order, and the covariate
  \<open>"B:A"\<close> passes it.
\<close>

theorem order_validation:
  "generate_covariate_latexdict [(''A'', va), (''B'', vb)] [''A'', ''B'', ''A:B'']
     = Inl (WrongVariableOrder ''A:B'' ''A:B'' ''B:A'')
   \<and> generate_covariate_latexdict [(''A'', va), (''B'', vb)] [''A'', ''B'', ''B:A'']
     = Inr [(''A'', va), (''B'', vb), (''B:A'', vb @ times_sep @ va)]"
  by (simp add: generate_covariate_latexdict_def clean_cov_name_def split_A_B
        generate_lower_order_interactions_pair sorted_by_key_def order_key_def keys_def
        dict_get_def)

text \<open>With the keys in the order \<open>A\<close>, \<open>B\<close> the covariate \<open>"B:A"\<close> is accepted.\<close>

theorem order_validation_counterexample:
  "generate_covariate_latexdict [(''A'', ''Alpha''), (''B'', ''Beta'')] [''A'', ''B'', ''B:A'']
     = Inr [(''A'', ''Alpha''), (''B'', ''Beta''), (''B:A'', ''Beta'' @ times_sep @ ''Alpha'')]"
  by code_simp

lemma clean_cov_name_missing:
  assumes "split_char CHR '':'' cov = [a, b]" and "a \<notin> set cov_names \<or> b \<notin> set cov_names"
  shows "clean_cov_name d cov_names cov = Inl (MissingLowerOrder cov ({a, b} - set cov_names))"
proof -
  have "set (generate_lower_order_interactions [a, b]) = {a, b}"
    by (auto simp: generate_lower_order_interactions_pair)
  with assms show ?thesis
    by (auto simp: clean_cov_name_def Let_def)
qed

lemma cov_loop_first_failure:
  assumes "list_all (\<lambda>c. \<not> isl (clean_cov_name d cov_names c)) pre"
    and "clean_cov_name d cov_names cov = Inl e"
  shows "cov_loop d cov_names (pre @ cov # post) acc = Inl e"
  using assms
proof (induction pre arbitrary: acc)
  case Nil
  then show ?case by simp
next
  case (Cons c pre)
  then obtain n where "clean_cov_name d cov_names c = Inr n"
    by (cases "clean_cov_name d cov_names c") auto
  with Cons show ?case by simp
qed

lemma cov_loop_fails:
  assumes "clean_cov_name d cov_names cov = Inl e"
  shows "isl (cov_loop d cov_names (pre @ cov # post) acc)"
  using assms
proof (induction pre arbitrary: acc)
  case Nil
  then show ?case by simp
next
  case (Cons c pre)
  then show ?case by (cases "clean_cov_name d cov_names c") auto
qed

text \<open>
  C5, as amended. Let the covariate list hold a two-variable interaction \<open>cov\<close>, made of
  \<open>a\<close> and \<open>b\<close>, of which at least one is not in the list. Then
  \<open>generate_covariate_latexdict\<close> ends in a failed assertion. When no covariate in front
  of \<open>cov\<close> fails its own validation, it is the assertion on the lower-order terms, for
  \<open>cov\<close>, and its message names \<open>cov\<close> and those of \<open>a\<close> and \<open>b\<close> that are missing. The
  covariates are validated in the order of the list, and the first failure ends the call.
\<close>

theorem missing_lower_order:
  assumes "cov_names = pre @ cov # post"
    and "split_char CHR '':'' cov = [a, b]"
    and "a \<notin> set cov_names \<or> b \<notin> set cov_names"
  shows "isl (generate_covariate_latexdict d cov_names)
    \<and> (list_all (\<lambda>c. \<not> isl (clean_cov_name d cov_names c)) pre \<longrightarrow>
         generate_covariate_latexdict d cov_names
           = Inl (MissingLowerOrder cov ({a, b} - set cov_names)))"
  unfolding generate_covariate_latexdict_def
  using clean_cov_name_missing [OF assms(2,3), of d]
  by (subst (1 2) assms(1)) (auto intro: cov_loop_fails cov_loop_first_failure)

theorem missing_lower_order_witness:
  "generate_covariate_latexdict [(''A'', ''Alpha''), (''B'', ''Beta'')] [''A:B'']
     = Inl (MissingLowerOrder ''A:B'' {''A'', ''B''})"
proof -
  have s: "split_char CHR '':'' ''A:B'' = [''A'', ''B'']" by code_simp
  have "[''A:B''] = [] @ ''A:B'' # []" by simp
  from missing_lower_order [OF this s, of "[(''A'', ''Alpha''), (''B'', ''Beta'')]"]
  show ?thesis by simp
qed

text \<open>
  In the list below \<open>"A:B"\<close> is a two-variable interaction without \<open>"A"\<close> and \<open>"B"\<close>, and
  the call ends with the order failure of \<open>"C:D"\<close>, which comes first.
\<close>

theorem missing_lower_order_counterexample:
  "split_char CHR '':'' ''A:B'' = [''A'', ''B'']
   \<and> ''A'' \<notin> set [''C'', ''D'', ''C:D'', ''A:B'']
   \<and> ''B'' \<notin> set [''C'', ''D'', ''C:D'', ''A:B'']
   \<and> generate_covariate_latexdict [(''C'', ''Gamma''), (''D'', ''Delta'')]
        [''C'', ''D'', ''C:D'', ''A:B'']
      = Inl (WrongVariableOrder ''C:D'' ''C:D'' ''D:C'')"
  by code_simp

section \<open>The pseudo-R2 block of \<open>savereg\<close>\<close>

lemma overwrite_r2_Cons:
  assumes "overwrite_r2 set_custom_notes ((i, m) # ps) sg = Inr sg'"
  obtains p sg2 where "prsquasecond m = Some p"
    and "overwrite_r2 set_custom_notes ps sg2 = Inr sg'"
    and "models sg2 = models sg"
    and "model_data sg2 = (model_data sg)[i := (model_data sg ! i)(''r2'' \<mapsto> p)]"
    and "custom_notes sg2 = (if pseudo_r2_note \<in> set (custom_notes sg) then custom_notes sg
          else custom_notes sg @ [pseudo_r2_note])"
proof -
  from assms obtain p where p: "prsquasecond m = Some p"
    by (cases "prsquasecond m") auto
  define sg1 where "sg1 = sg\<lparr>model_data := (model_data sg)[i := (model_data sg ! i)(''r2'' \<mapsto> p)]\<rparr>"
  define sg2 where "sg2 = (if pseudo_r2_note \<notin> set (custom_notes sg1)
                     then set_custom_notes (custom_notes sg1 @ [pseudo_r2_note]) sg1 else sg1)"
  have "overwrite_r2 set_custom_notes ((i, m) # ps) sg = overwrite_r2 set_custom_notes ps sg2"
    by (simp add: p sg1_def sg2_def Let_def)
  with assms have "overwrite_r2 set_custom_notes ps sg2 = Inr sg'"
    by simp
  moreover have "models sg2 = models sg"
    "model_data sg2 = (model_data sg)[i := (model_data sg ! i)(''r2'' \<mapsto> p)]"
    "custom_notes sg2 = (if pseudo_r2_note \<in> set (custom_notes sg) then custom_notes sg
          else custom_notes sg @ [pseudo_r2_note])"
    by (simp_all add: sg2_def sg1_def set_custom_notes_def)
  ultimately show thesis using p that by blast
qed

lemma overwrite_r2_models:
  "overwrite_r2 set_custom_notes ps sg = Inr sg' \<Longrightarrow> models sg' = models sg"
proof (induction ps arbitrary: sg)
  case Nil
  then show ?case by simp
next
  case (Cons a ps)
  obtain i m where a: "a = (i, m)" by (cases a)
  from Cons.prems [unfolded a] show ?case
    by (rule overwrite_r2_Cons) (use Cons.IH in force)
qed

lemma overwrite_r2_length:
  "overwrite_r2 set_custom_notes ps sg = Inr sg' \<Longrightarrow>
   length (model_data sg') = length (model_data sg)"
proof (induction ps arbitrary: sg)
  case Nil
  then show ?case by simp
next
  case (Cons a ps)
  obtain i m where a: "a = (i, m)" by (cases a)
  from Cons.prems [unfolded a] show ?case
    by (rule overwrite_r2_Cons) (use Cons.IH in force)
qed

lemma overwrite_r2_notes:
  "overwrite_r2 set_custom_notes ps sg = Inr sg' \<Longrightarrow>
   custom_notes sg' =
     (if ps = [] \<or> pseudo_r2_note \<in> set (custom_notes sg) then custom_notes sg
      else custom_notes sg @ [pseudo_r2_note])"
proof (induction ps arbitrary: sg)
  case Nil
  then show ?case by simp
next
  case (Cons a ps)
  obtain i m where a: "a = (i, m)" by (cases a)
  from Cons.prems [unfolded a] show ?case
  proof (rule overwrite_r2_Cons)
    fix p sg2
    assume "overwrite_r2 set_custom_notes ps sg2 = Inr sg'"
      and n: "custom_notes sg2 = (if pseudo_r2_note \<in> set (custom_notes sg) then custom_notes sg
          else custom_notes sg @ [pseudo_r2_note])"
    from Cons.IH [OF this(1)] have "custom_notes sg' = custom_notes sg2"
      by (simp add: n)
    with n show ?thesis by simp
  qed
qed

lemma overwrite_r2_untouched:
  "overwrite_r2 set_custom_notes ps sg = Inr sg' \<Longrightarrow> j \<notin> fst ` set ps \<Longrightarrow>
   model_data sg' ! j = model_data sg ! j"
proof (induction ps arbitrary: sg)
  case Nil
  then show ?case by simp
next
  case (Cons a ps)
  obtain i m where a: "a = (i, m)" by (cases a)
  from Cons.prems(1) [unfolded a] show ?case
  proof (rule overwrite_r2_Cons)
    fix p sg2
    assume "overwrite_r2 set_custom_notes ps sg2 = Inr sg'"
      and d: "model_data sg2 = (model_data sg)[i := (model_data sg ! i)(''r2'' \<mapsto> p)]"
    from Cons.IH [OF this(1)] Cons.prems(2) have "model_data sg' ! j = model_data sg2 ! j"
      by simp
    with d Cons.prems(2) show ?thesis by (simp add: a)
  qed
qed

lemma overwrite_r2_updated:
  "overwrite_r2 set_custom_notes ps sg = Inr sg' \<Longrightarrow> distinct (map fst ps) \<Longrightarrow>
   (k, n) \<in> set ps \<Longrightarrow> k < length (model_data sg) \<Longrightarrow>
   \<exists>p. prsquasecond n = Some p \<and> model_data sg' ! k = (model_data sg ! k)(''r2'' \<mapsto> p)"
proof (induction ps arbitrary: sg)
  case Nil
  then show ?case by simp
next
  case (Cons a ps)
  obtain i m where a: "a = (i, m)" by (cases a)
  from Cons.prems(2) a have fresh: "i \<notin> fst ` set ps" and dist: "distinct (map fst ps)"
    by auto
  from Cons.prems(1) [unfolded a] show ?case
  proof (rule overwrite_r2_Cons)
    fix p sg2
    assume p: "prsquasecond m = Some p"
      and rest: "overwrite_r2 set_custom_notes ps sg2 = Inr sg'"
      and d: "model_data sg2 = (model_data sg)[i := (model_data sg ! i)(''r2'' \<mapsto> p)]"
    from Cons.prems(3) a consider "k = i" "n = m" | "(k, n) \<in> set ps" by auto
    then show ?thesis
    proof cases
      case 1
      from overwrite_r2_untouched [OF rest fresh] have "model_data sg' ! i = model_data sg2 ! i" .
      with 1 p d Cons.prems(4) show ?thesis by simp
    next
      case 2
      then have "k \<noteq> i" using fresh by force
      moreover have "k < length (model_data sg2)" using Cons.prems(4) d by simp
      ultimately show ?thesis using Cons.IH [OF rest dist 2] d by simp
    qed
  qed
qed

lemma overwrite_r2_succeeds:
  "list_all (\<lambda>(i, m). prsquasecond m \<noteq> None) ps \<Longrightarrow>
   \<exists>sg'. overwrite_r2 set_custom_notes ps sg = Inr sg'"
proof (induction ps arbitrary: sg)
  case Nil
  then show ?case by simp
next
  case (Cons a ps)
  obtain i m where a: "a = (i, m)" by (cases a)
  from Cons.prems a obtain p where "prsquasecond m = Some p" by auto
  with Cons.IH Cons.prems show ?case by (simp add: a Let_def)
qed

text \<open>
  What the block does on a table where every model exposes a pseudo-R2 value, with at
  least one model and one dictionary of model data per model: it succeeds, the entry
  \<open>r2\<close> of every model's data is overwritten with that model's pseudo-R2 and nothing else
  in the data changes, and the footnote is appended to the custom notes once when it is
  not among them and not at all when it is. Here \<open>add_custom_notes\<close> stores its argument
  as the list of custom notes, as the stargazer library does.
\<close>

lemma pseudo_r2_all_models:
  assumes "models sg \<noteq> []"
    and "list_all (\<lambda>model. prsquasecond model \<noteq> None) (models sg)"
    and "length (model_data sg) = length (models sg)"
  shows "\<exists>sg'. savereg_pseudo_r2 set_custom_notes sg = Inr sg'
     \<and> models sg' = models sg
     \<and> model_data sg' =
         map2 (\<lambda>data model. case prsquasecond model of Some p \<Rightarrow> data(''r2'' \<mapsto> p) | None \<Rightarrow> data)
           (model_data sg) (models sg)
     \<and> custom_notes sg' =
         (if pseudo_r2_note \<in> set (custom_notes sg) then custom_notes sg
          else custom_notes sg @ [pseudo_r2_note])
     \<and> count_list (custom_notes sg') pseudo_r2_note
         = max 1 (count_list (custom_notes sg) pseudo_r2_note)"
proof -
  let ?ps = "zip [0..<length (model_data sg)] (models sg)"
  let ?upd = "\<lambda>data model. case prsquasecond model of Some p \<Rightarrow> data(''r2'' \<mapsto> p) | None \<Rightarrow> data"
  have any: "list_ex (\<lambda>model. prsquasecond model \<noteq> None) (models sg)"
    using assms(1,2) by (cases "models sg") auto
  have ps: "?ps \<noteq> []" using assms(1,3) by (cases "models sg") (auto simp: upt_conv_Cons)
  have "list_all (\<lambda>(i, m). prsquasecond m \<noteq> None) ?ps"
    using assms(2) by (auto simp: list_all_iff dest: set_zip_rightD)
  then obtain sg' where res: "overwrite_r2 set_custom_notes ?ps sg = Inr sg'"
    using overwrite_r2_succeeds by blast
  have dist: "distinct (map fst ?ps)" using assms(3) by simp
  have n: "custom_notes sg' =
         (if pseudo_r2_note \<in> set (custom_notes sg) then custom_notes sg
          else custom_notes sg @ [pseudo_r2_note])"
    using overwrite_r2_notes [OF res] ps by simp
  have l: "length (model_data sg') = length (models sg)"
    using overwrite_r2_length [OF res] assms(3) by simp
  have "model_data sg' = map2 ?upd (model_data sg) (models sg)"
  proof (rule nth_equalityI)
    show "length (model_data sg') = length (map2 ?upd (model_data sg) (models sg))"
      using l assms(3) by simp
  next
    fix k assume "k < length (model_data sg')"
    then have k: "k < length (models sg)" using l by simp
    then have "(k, models sg ! k) \<in> set ?ps"
      using assms(3) by (auto simp: set_zip intro!: exI [of _ k])
    from overwrite_r2_updated [OF res dist this] k assms(3)
    obtain p where "prsquasecond (models sg ! k) = Some p"
      "model_data sg' ! k = (model_data sg ! k)(''r2'' \<mapsto> p)"
      by auto
    with k assms(3) show "model_data sg' ! k = map2 ?upd (model_data sg) (models sg) ! k"
      by simp
  qed
  moreover have "count_list (custom_notes sg') pseudo_r2_note
         = max 1 (count_list (custom_notes sg) pseudo_r2_note)"
  proof (cases "pseudo_r2_note \<in> set (custom_notes sg)")
    case True
    then have "0 < count_list (custom_notes sg) pseudo_r2_note"
      using count_list_0_iff [of "custom_notes sg" pseudo_r2_note] by simp
    with True n show ?thesis by simp
  next
    case False
    then have "count_list (custom_notes sg) pseudo_r2_note = 0"
      using count_list_0_iff [of "custom_notes sg" pseudo_r2_note] by simp
    with False n show ?thesis by simp
  qed
  moreover have "savereg_pseudo_r2 set_custom_notes sg = Inr sg'"
    using res any by (simp add: savereg_pseudo_r2_def)
  moreover note n overwrite_r2_models [OF res]
  ultimately show ?thesis by blast
qed

lemma pseudo_r2_all_models_example:
  "savereg_pseudo_r2 set_custom_notes
     \<lparr>models = [\<lparr>prsquasecond = Some (31::int)\<rparr>, \<lparr>prsquasecond = Some 42\<rparr>],
      model_data = [Map.empty, Map.empty], custom_notes = []\<rparr>
   = Inr \<lparr>models = [\<lparr>prsquasecond = Some 31\<rparr>, \<lparr>prsquasecond = Some 42\<rparr>],
          model_data = [[''r2'' \<mapsto> 31], [''r2'' \<mapsto> 42]], custom_notes = [pseudo_r2_note]\<rparr>"
proof -
  let ?sg = "\<lparr>models = [\<lparr>prsquasecond = Some (31::int)\<rparr>, \<lparr>prsquasecond = Some 42\<rparr>],
      model_data = [Map.empty, Map.empty], custom_notes = []\<rparr>"
  have "models ?sg \<noteq> []" "list_all (\<lambda>model. prsquasecond model \<noteq> None) (models ?sg)"
    "length (model_data ?sg) = length (models ?sg)"
    by simp_all
  from pseudo_r2_all_models [OF this] obtain sg' where
    "savereg_pseudo_r2 set_custom_notes ?sg = Inr sg'" "models sg' = models ?sg"
    "model_data sg' = [[''r2'' \<mapsto> 31], [''r2'' \<mapsto> 42]]" "custom_notes sg' = [pseudo_r2_note]"
    by auto
  then show ?thesis by (cases sg') simp
qed

text \<open>
  C7. The block is entered when at least one model exposes a pseudo-R2 value, and it then
  reads \<open>model.prsquasecond\<close> of every model. On a table whose first model exposes the
  value and whose second model does not, whatever the value, the model data, the custom
  notes and the behaviour of \<open>add_custom_notes\<close>, the block raises \<open>AttributeError\<close> at the
  second model: the displayed R2 of the models is not overwritten as the claim says, and
  \<open>savereg\<close> does not reach the rendering of the table.
\<close>

theorem pseudo_r2_mixed_models:
  "savereg_pseudo_r2 add_custom_notes
     \<lparr>models = [\<lparr>prsquasecond = Some p\<rparr>, \<lparr>prsquasecond = None\<rparr>],
      model_data = [data1, data2], custom_notes = notes\<rparr>
   = Inl (AttributeError ''prsquasecond'')"
  by (simp add: savereg_pseudo_r2_def upt_rec Let_def)

section \<open>\<open>savefig\<close> on an object with a super-title only\<close>

text \<open>
  C6. On an object without the attribute \<open>title\<close> and with the attribute \<open>suptitle\<close>, the
  second branch of \<open>savefig\<close> reads \<open>ax.title\<close> as the first branch does, so the call
  raises \<open>AttributeError\<close> before any file is saved: the super-title is not hidden and no
  figure is written.
\<close>

theorem savefig_suptitle_only:
  "savefig \<lparr>title = None, suptitle = Some t\<rparr> filename figurepath
     = Inl (AttributeError ''title'')"
  by (simp add: savefig_def save_notitle_def setp_title_visible_def)

end
